theory Spec2Isabelle
  imports Main "HOL-Library.Word"
begin

section \<open>The DarkVault ledger\<close>

text \<open>
  A shallow embedding of the Solidity contract \<open>DarkVault\<close>: one \<open>Vault\<close> per owner
  address, holding an encrypted key handle, the \<open>initialized\<close> flag and the list of
  stored ciphertext strings.  Every external function takes \<open>msg.sender\<close> as an explicit
  argument and returns either the error it reverts with or the updated ledger.
\<close>

subsection \<open>Data\<close>

type_synonym address = "160 word"
type_synonym uint256 = "256 word"
type_synonym eaddress = "256 word"
type_synonym externalEaddress = "256 word"
type_synonym bytes = "8 word list"

record Vault =
  encryptedKey :: eaddress
  initialized :: bool
  ciphertexts :: "string list"

datatype event =
    VaultCreated address
  | VaultKeyRotated address
  | SecretStored address uint256

datatype error =
    VaultAlreadyExists
  | VaultMissing
  | SecretIndexOutOfBounds
  | InputRejected
  | Panic

text \<open>
  The ledger state: the private mapping \<open>vaults\<close>, the access layer's table of grants
  (which identities may ask for the decryption of which handle) and the log of emitted
  events.  A Solidity mapping is total: a key never written reads as the zero record.
\<close>

record ledger =
  vaults :: "address \<Rightarrow> Vault"
  grants :: "eaddress \<Rightarrow> address set"
  events :: "event list"

definition empty_vault :: Vault where
  "empty_vault = \<lparr>encryptedKey = 0, initialized = False, ciphertexts = []\<rparr>"

definition init_ledger :: ledger where
  "init_ledger = \<lparr>vaults = (\<lambda>_. empty_vault), grants = (\<lambda>_. {}), events = []\<rparr>"

subsection \<open>The encrypted-value access layer\<close>

text \<open>
  The library behind \<open>FHE.fromExternal\<close>, \<open>FHE.allowThis\<close> and \<open>FHE.allow\<close> is not part
  of the repository.  The contract's own address (\<open>address(this)\<close>) and the validation
  of an external input for a sender are parameters of the model.  The spec describes
  the validation as \<open>validate(externalEncryptedInput, proof) -> validatedEncryptedValue\<close>,
  which fails if the proof does not match: \<open>None\<close> is that failure, and the call reverts.
\<close>

record access_layer =
  this :: address
  fromExternal :: "address \<Rightarrow> externalEaddress \<Rightarrow> bytes \<Rightarrow> eaddress option"

text \<open>
  Modelled from the spec: the grant operations of the access layer
  (\<open>grantAccess(value, identity)\<close>: idempotent, extends the value's
  authorized-decryptor set), whose code is in the FHE library.
\<close>

definition allow :: "eaddress \<Rightarrow> address \<Rightarrow> ledger \<Rightarrow> ledger" where
  "allow h a s = s\<lparr>grants := (grants s)(h := insert a (grants s h))\<rparr>"

text \<open>
  Modelled from the spec: \<open>grantSelfAccess(value)\<close>, the grant to the contract itself.
\<close>

definition allowThis :: "access_layer \<Rightarrow> eaddress \<Rightarrow> ledger \<Rightarrow> ledger" where
  "allowThis fhe h s = allow h (this fhe) s"

definition emit :: "event \<Rightarrow> ledger \<Rightarrow> ledger" where
  "emit e s = s\<lparr>events := events s @ [e]\<rparr>"

subsection \<open>Mutating functions\<close>

text \<open>
  The three assignments the mutating functions make, each to a field of
  \<open>vaults[msg.sender]\<close>.
\<close>

definition set_encryptedKey :: "address \<Rightarrow> eaddress \<Rightarrow> ledger \<Rightarrow> ledger" where
  "set_encryptedKey a k s = s\<lparr>vaults := (vaults s)(a := (vaults s a)\<lparr>encryptedKey := k\<rparr>)\<rparr>"

definition set_initialized :: "address \<Rightarrow> bool \<Rightarrow> ledger \<Rightarrow> ledger" where
  "set_initialized a b s = s\<lparr>vaults := (vaults s)(a := (vaults s a)\<lparr>initialized := b\<rparr>)\<rparr>"

definition push_ciphertext :: "address \<Rightarrow> string \<Rightarrow> ledger \<Rightarrow> ledger" where
  "push_ciphertext a c s =
     s\<lparr>vaults := (vaults s)(a := (vaults s a)\<lparr>ciphertexts := ciphertexts (vaults s a) @ [c]\<rparr>)\<rparr>"

text \<open>
  \<^verbatim>\<open>
  function createVault(externalEaddress encryptedKey, bytes calldata inputProof) external {
      if (vaults[msg.sender].initialized) {
          revert VaultAlreadyExists();
      }
      eaddress validatedKey = FHE.fromExternal(encryptedKey, inputProof);
      vaults[msg.sender].encryptedKey = validatedKey;
      vaults[msg.sender].initialized = true;
      FHE.allowThis(validatedKey);
      FHE.allow(validatedKey, msg.sender);
      emit VaultCreated(msg.sender);
  }
  \<close>
  A rejected input is the error \<open>InputRejected\<close>: the revert of \<open>FHE.fromExternal\<close>.
\<close>

definition createVault ::
  "access_layer \<Rightarrow> address \<Rightarrow> externalEaddress \<Rightarrow> bytes \<Rightarrow> ledger \<Rightarrow> error + ledger" where
  "createVault fhe sender extKey inputProof s =
     (if initialized (vaults s sender) then Inl VaultAlreadyExists
      else case fromExternal fhe sender extKey inputProof of
        None \<Rightarrow> Inl InputRejected
      | Some validatedKey \<Rightarrow>
          Inr (emit (VaultCreated sender)
                (allow validatedKey sender
                  (allowThis fhe validatedKey
                    (set_initialized sender True
                      (set_encryptedKey sender validatedKey s))))))"

text \<open>
  \<^verbatim>\<open>
  function rotateVaultKey(externalEaddress encryptedKey, bytes calldata inputProof) external {
      if (!vaults[msg.sender].initialized) {
          revert VaultMissing();
      }
      eaddress validatedKey = FHE.fromExternal(encryptedKey, inputProof);
      vaults[msg.sender].encryptedKey = validatedKey;
      FHE.allowThis(validatedKey);
      FHE.allow(validatedKey, msg.sender);
      emit VaultKeyRotated(msg.sender);
  }
  \<close>
\<close>

definition rotateVaultKey ::
  "access_layer \<Rightarrow> address \<Rightarrow> externalEaddress \<Rightarrow> bytes \<Rightarrow> ledger \<Rightarrow> error + ledger" where
  "rotateVaultKey fhe sender extKey inputProof s =
     (if \<not> initialized (vaults s sender) then Inl VaultMissing
      else case fromExternal fhe sender extKey inputProof of
        None \<Rightarrow> Inl InputRejected
      | Some validatedKey \<Rightarrow>
          Inr (emit (VaultKeyRotated sender)
                (allow validatedKey sender
                  (allowThis fhe validatedKey
                    (set_encryptedKey sender validatedKey s)))))"

text \<open>
  \<^verbatim>\<open>
  function storeSecret(string calldata ciphertext) external {
      if (!vaults[msg.sender].initialized) {
          revert VaultMissing();
      }
      vaults[msg.sender].ciphertexts.push(ciphertext);
      emit SecretStored(msg.sender, vaults[msg.sender].ciphertexts.length - 1);
  }
  \<close>
  The length of a storage array is a \<open>uint256\<close>.  Solidity 0.8 arithmetic is checked, so
  a \<open>push\<close> that would take the length past \<open>2^256 - 1\<close> panics instead of wrapping; the
  subtraction \<open>length - 1\<close> of the event's index is taken after the push.
\<close>

definition storeSecret :: "address \<Rightarrow> string \<Rightarrow> ledger \<Rightarrow> error + ledger" where
  "storeSecret sender ciphertext s =
     (if \<not> initialized (vaults s sender) then Inl VaultMissing
      else if length (ciphertexts (vaults s sender)) \<ge> 2 ^ 256 - 1 then Inl Panic
      else let s1 = push_ciphertext sender ciphertext s
           in Inr (emit (SecretStored sender
                          (of_nat (length (ciphertexts (vaults s1 sender))) - 1)) s1))"

subsection \<open>View functions\<close>

text \<open>
  The \<open>view\<close> functions read the ledger and return a value, never a ledger.
  \<^verbatim>\<open>
  function hasVault(address owner) external view returns (bool) {
      return vaults[owner].initialized;
  }
  function getVaultKey(address owner) external view returns (eaddress) {
      return vaults[owner].encryptedKey;
  }
  function getSecretCount(address owner) external view returns (uint256) {
      return vaults[owner].ciphertexts.length;
  }
  function getSecret(address owner, uint256 index) external view returns (string memory) {
      if (index >= vaults[owner].ciphertexts.length) {
          revert SecretIndexOutOfBounds();
      }
      return vaults[owner].ciphertexts[index];
  }
  \<close>
\<close>

definition hasVault :: "ledger \<Rightarrow> address \<Rightarrow> bool" where
  "hasVault s owner = initialized (vaults s owner)"

definition getVaultKey :: "ledger \<Rightarrow> address \<Rightarrow> eaddress" where
  "getVaultKey s owner = encryptedKey (vaults s owner)"

definition getSecretCount :: "ledger \<Rightarrow> address \<Rightarrow> uint256" where
  "getSecretCount s owner = of_nat (length (ciphertexts (vaults s owner)))"

definition getSecret :: "ledger \<Rightarrow> address \<Rightarrow> uint256 \<Rightarrow> error + string" where
  "getSecret s owner index =
     (if index \<ge> of_nat (length (ciphertexts (vaults s owner))) then Inl SecretIndexOutOfBounds
      else Inr (ciphertexts (vaults s owner) ! unat index))"

subsection \<open>Transactions\<close>

text \<open>
  A transaction is one external call of a mutating function by a sender.  A call that
  reverts leaves the whole state as it was; a sequence of transactions runs in order.
\<close>

datatype call =
    CreateVault externalEaddress bytes
  | RotateVaultKey externalEaddress bytes
  | StoreSecret string

fun dispatch :: "access_layer \<Rightarrow> address \<Rightarrow> call \<Rightarrow> ledger \<Rightarrow> error + ledger" where
  "dispatch fhe sender (CreateVault k p) s = createVault fhe sender k p s"
| "dispatch fhe sender (RotateVaultKey k p) s = rotateVaultKey fhe sender k p s"
| "dispatch fhe sender (StoreSecret c) s = storeSecret sender c s"

definition transact :: "access_layer \<Rightarrow> ledger \<Rightarrow> address \<times> call \<Rightarrow> ledger" where
  "transact fhe s tx = (case dispatch fhe (fst tx) (snd tx) s of Inl _ \<Rightarrow> s | Inr s' \<Rightarrow> s')"

fun run :: "access_layer \<Rightarrow> ledger \<Rightarrow> (address \<times> call) list \<Rightarrow> ledger" where
  "run fhe s [] = s"
| "run fhe s (tx # txs) = run fhe (transact fhe s tx) txs"

definition succeeds :: "error + 'a \<Rightarrow> bool" where
  "succeeds r = (case r of Inl _ \<Rightarrow> False | Inr _ \<Rightarrow> True)"

text \<open>
  The ciphertexts that owner \<open>who\<close> submitted in the successful \<open>storeSecret\<close> calls of a
  transaction sequence, in submission order.
\<close>

fun submitted :: "access_layer \<Rightarrow> ledger \<Rightarrow> address \<Rightarrow> (address \<times> call) list \<Rightarrow> string list" where
  "submitted fhe s who [] = []"
| "submitted fhe s who ((a, StoreSecret c) # txs) =
     (if a = who \<and> succeeds (storeSecret a c s) then [c] else [])
       @ submitted fhe (transact fhe s (a, StoreSecret c)) who txs"
| "submitted fhe s who (tx # txs) = submitted fhe (transact fhe s tx) who txs"

text \<open>Whether owner \<open>who\<close> made a successful \<open>createVault\<close> call in a transaction sequence.\<close>

fun created :: "access_layer \<Rightarrow> ledger \<Rightarrow> address \<Rightarrow> (address \<times> call) list \<Rightarrow> bool" where
  "created fhe s who [] = False"
| "created fhe s who ((a, CreateVault k p) # txs) =
     ((a = who \<and> succeeds (createVault fhe a k p s))
       \<or> created fhe (transact fhe s (a, CreateVault k p)) who txs)"
| "created fhe s who (tx # txs) = created fhe (transact fhe s tx) who txs"

text \<open>Every ciphertext array has a length that fits its \<open>uint256\<close> length slot.\<close>

definition array_bounded :: "ledger \<Rightarrow> bool" where
  "array_bounded s = (\<forall>a. length (ciphertexts (vaults s a)) < 2 ^ 256)"

text \<open>A vault that was never initialized holds no ciphertext.\<close>

definition uninitialized_empty :: "ledger \<Rightarrow> bool" where
  "uninitialized_empty s =
     (\<forall>a. \<not> initialized (vaults s a) \<longrightarrow> ciphertexts (vaults s a) = [])"

text \<open>A sample access layer: it accepts an input exactly when its proof is not empty.\<close>

definition demo_layer :: access_layer where
  "demo_layer = \<lparr>this = 0xDA7A, fromExternal = (\<lambda>sender k p. if p = [] then None else Some k)\<rparr>"

text \<open>Two sample owners, and the ledger after the first has created a vault with key
  handle \<open>5\<close> and stored one ciphertext.\<close>

definition alice :: address where
  "alice = 0xA11CE"

definition bob :: address where
  "bob = 0xB0B"

definition sample_txs :: "(address \<times> call) list" where
  "sample_txs =
     [(alice, CreateVault 5 [7]), (bob, StoreSecret ''x''), (alice, StoreSecret ''dv1:iv1:payload1'')]"

definition sample_txs2 :: "(address \<times> call) list" where
  "sample_txs2 = sample_txs @ [(alice, StoreSecret ''dv1:iv2:payload2'')]"

definition sample_ledger :: ledger where
  "sample_ledger = run demo_layer init_ledger sample_txs"

section \<open>The client cipher\<close>

text \<open>
  The helpers of \<open>VaultApp.tsx\<close> that encrypt a secret under the vault key before it is
  stored and decrypt it after it is read.  A JavaScript string is a sequence of 16-bit
  code units; a \<open>Uint8Array\<close> is a list of bytes.
\<close>

type_synonym jsstring = "16 word list"




definition dv1 :: jsstring where
  "dv1 = [0x64, 0x76, 0x31]"





text \<open>
  \<open>String.prototype.split\<close> with a one-character separator: the pieces between the
  separators, at least one piece, empty pieces included.
\<close>

fun split :: "'a \<Rightarrow> 'a list \<Rightarrow> 'a list list" where
  "split sep [] = [[]]"
| "split sep (x # xs) =
     (if x = sep then [] # split sep xs
      else (case split sep xs of
              [] \<Rightarrow> [[x]]
            | piece # pieces \<Rightarrow> (x # piece) # pieces))"














section \<open>Basic facts\<close>

subsection \<open>What each state update touches\<close>

lemma vaults_allow [simp]: "vaults (allow h a s) = vaults s"
  by (simp add: allow_def)
lemma vaults_allowThis [simp]: "vaults (allowThis fhe h s) = vaults s"
  by (simp add: allowThis_def)
lemma vaults_emit [simp]: "vaults (emit e s) = vaults s"
  by (simp add: emit_def)
lemma vaults_set_encryptedKey [simp]:
  "vaults (set_encryptedKey a k s) = (vaults s)(a := (vaults s a)\<lparr>encryptedKey := k\<rparr>)"
  by (simp add: set_encryptedKey_def)
lemma vaults_set_initialized [simp]:
  "vaults (set_initialized a b s) = (vaults s)(a := (vaults s a)\<lparr>initialized := b\<rparr>)"
  by (simp add: set_initialized_def)
lemma vaults_push_ciphertext [simp]:
  "vaults (push_ciphertext a c s) =
     (vaults s)(a := (vaults s a)\<lparr>ciphertexts := ciphertexts (vaults s a) @ [c]\<rparr>)"
  by (simp add: push_ciphertext_def)

lemma grants_emit [simp]: "grants (emit e s) = grants s"
  by (simp add: emit_def)
lemma grants_set_encryptedKey [simp]: "grants (set_encryptedKey a k s) = grants s"
  by (simp add: set_encryptedKey_def)
lemma grants_set_initialized [simp]: "grants (set_initialized a b s) = grants s"
  by (simp add: set_initialized_def)
lemma grants_push_ciphertext [simp]: "grants (push_ciphertext a c s) = grants s"
  by (simp add: push_ciphertext_def)
lemma grants_allow [simp]: "grants (allow h a s) = (grants s)(h := insert a (grants s h))"
  by (simp add: allow_def)
lemma grants_allowThis [simp]:
  "grants (allowThis fhe h s) = (grants s)(h := insert (this fhe) (grants s h))"
  by (simp add: allowThis_def)

lemma events_emit [simp]: "events (emit e s) = events s @ [e]"
  by (simp add: emit_def)
lemma events_allow [simp]: "events (allow h a s) = events s"
  by (simp add: allow_def)
lemma events_allowThis [simp]: "events (allowThis fhe h s) = events s"
  by (simp add: allowThis_def)
lemma events_set_encryptedKey [simp]: "events (set_encryptedKey a k s) = events s"
  by (simp add: set_encryptedKey_def)
lemma events_set_initialized [simp]: "events (set_initialized a b s) = events s"
  by (simp add: set_initialized_def)
lemma events_push_ciphertext [simp]: "events (push_ciphertext a c s) = events s"
  by (simp add: push_ciphertext_def)

lemma createVault_Inr:
  assumes "createVault fhe c k p s = Inr s'"
  shows "\<not> initialized (vaults s c) \<and>
         (\<exists>h. fromExternal fhe c k p = Some h \<and>
           vaults s' = (vaults s)(c := (vaults s c)\<lparr>encryptedKey := h, initialized := True\<rparr>) \<and>
           grants s' = (grants s)(h := insert c (insert (this fhe) (grants s h))) \<and>
           events s' = events s @ [VaultCreated c])"
  using assms by (auto simp: createVault_def split: if_splits option.splits)

lemma rotateVaultKey_Inr:
  assumes "rotateVaultKey fhe c k p s = Inr s'"
  shows "initialized (vaults s c) \<and>
         (\<exists>h. fromExternal fhe c k p = Some h \<and>
           vaults s' = (vaults s)(c := (vaults s c)\<lparr>encryptedKey := h\<rparr>) \<and>
           grants s' = (grants s)(h := insert c (insert (this fhe) (grants s h))) \<and>
           events s' = events s @ [VaultKeyRotated c])"
  using assms by (auto simp: rotateVaultKey_def split: if_splits option.splits)

lemma storeSecret_Inr:
  assumes "storeSecret c ct s = Inr s'"
  shows "initialized (vaults s c) \<and> length (ciphertexts (vaults s c)) < 2 ^ 256 - 1 \<and>
         vaults s' = (vaults s)(c := (vaults s c)\<lparr>ciphertexts := ciphertexts (vaults s c) @ [ct]\<rparr>) \<and>
         grants s' = grants s \<and>
         events s' = events s @ [SecretStored c (of_nat (length (ciphertexts (vaults s c))))]"
  using assms by (auto simp: storeSecret_def Let_def split: if_splits)

subsection \<open>Transactions and what they preserve\<close>

lemma succeeds_simps [simp]: "succeeds (Inl e) = False" "succeeds (Inr x) = True"
  by (simp_all add: succeeds_def)

lemma succeeds_iff: "succeeds r \<longleftrightarrow> (\<exists>x. r = Inr x)"
  by (cases r) simp_all

lemma transact_Inl: "dispatch fhe a c s = Inl e \<Longrightarrow> transact fhe s (a, c) = s"
  by (simp add: transact_def)

lemma transact_Inr: "dispatch fhe a c s = Inr s' \<Longrightarrow> transact fhe s (a, c) = s'"
  by (simp add: transact_def)

lemma dispatch_vaults_other:
  assumes "dispatch fhe a c s = Inr s'" and "d \<noteq> a"
  shows "vaults s' d = vaults s d"
proof (cases c)
  case (CreateVault k p)
  with assms show ?thesis by (auto dest!: createVault_Inr)
next
  case (RotateVaultKey k p)
  with assms show ?thesis by (auto dest!: rotateVaultKey_Inr)
next
  case (StoreSecret ct)
  with assms show ?thesis by (auto dest!: storeSecret_Inr)
qed

lemma transact_vaults_other: "d \<noteq> a \<Longrightarrow> vaults (transact fhe s (a, c)) d = vaults s d"
  by (cases "dispatch fhe a c s") (simp_all add: transact_Inl transact_Inr dispatch_vaults_other)

lemma dispatch_grants:
  assumes "dispatch fhe a c s = Inr s'"
  shows "grants s' h \<subseteq> grants s h \<union> {this fhe, a}"
proof (cases c)
  case (CreateVault k p)
  with assms show ?thesis by (auto dest!: createVault_Inr split: if_splits)
next
  case (RotateVaultKey k p)
  with assms show ?thesis by (auto dest!: rotateVaultKey_Inr split: if_splits)
next
  case (StoreSecret ct)
  with assms show ?thesis by (auto dest!: storeSecret_Inr)
qed

lemma transact_grants: "grants (transact fhe s (a, c)) h \<subseteq> grants s h \<union> {this fhe, a}"
proof (cases "dispatch fhe a c s")
  case (Inl e)
  then show ?thesis by (auto simp: transact_Inl)
next
  case (Inr s')
  with dispatch_grants [OF Inr, of h] show ?thesis by (simp add: transact_Inr)
qed

lemma dispatch_initialized:
  assumes "dispatch fhe a c s = Inr s'" and "initialized (vaults s d)"
  shows "initialized (vaults s' d)"
proof (cases c)
  case (CreateVault k p)
  with assms show ?thesis by (auto dest!: createVault_Inr)
next
  case (RotateVaultKey k p)
  with assms show ?thesis by (auto dest!: rotateVaultKey_Inr)
next
  case (StoreSecret ct)
  with assms show ?thesis by (auto dest!: storeSecret_Inr)
qed

lemma transact_hasVault: "hasVault s d \<Longrightarrow> hasVault (transact fhe s tx) d"
  by (cases tx, cases "dispatch fhe (fst tx) (snd tx) s")
     (auto simp: hasVault_def transact_Inl transact_Inr dispatch_initialized)

lemma run_hasVault: "hasVault s d \<Longrightarrow> hasVault (run fhe s txs) d"
  by (induction txs arbitrary: s) (simp_all add: transact_hasVault)

lemma run_append: "run fhe s (xs @ ys) = run fhe (run fhe s xs) ys"
  by (induction xs arbitrary: s) simp_all

subsection \<open>Invariants of the ledger and the history of a vault\<close>

lemma unat_of_nat_uint256: "n < 2 ^ 256 \<Longrightarrow> unat (of_nat n :: uint256) = n"
  by (simp add: unat_of_nat)

lemma array_bounded_init: "array_bounded init_ledger"
  by (simp add: array_bounded_def init_ledger_def empty_vault_def)

lemma dispatch_array_bounded:
  assumes "dispatch fhe a c s = Inr s'" and "array_bounded s"
  shows "array_bounded s'"
proof (cases c)
  case (CreateVault k p)
  with assms show ?thesis by (auto simp: array_bounded_def dest!: createVault_Inr)
next
  case (RotateVaultKey k p)
  with assms show ?thesis by (auto simp: array_bounded_def dest!: rotateVaultKey_Inr)
next
  case (StoreSecret ct)
  with assms have *: "length (ciphertexts (vaults s a)) < 2 ^ 256 - 1"
    and v: "vaults s' = (vaults s)(a := (vaults s a)\<lparr>ciphertexts := ciphertexts (vaults s a) @ [ct]\<rparr>)"
    by (auto dest!: storeSecret_Inr)
  from * have "Suc (length (ciphertexts (vaults s a))) < 2 ^ 256" by linarith
  with assms(2) v show ?thesis by (simp add: array_bounded_def)
qed

lemma transact_array_bounded: "array_bounded s \<Longrightarrow> array_bounded (transact fhe s tx)"
  by (cases tx, cases "dispatch fhe (fst tx) (snd tx) s")
     (auto simp: transact_Inl transact_Inr dispatch_array_bounded)

lemma run_array_bounded: "array_bounded s \<Longrightarrow> array_bounded (run fhe s txs)"
  by (induction txs arbitrary: s) (simp_all add: transact_array_bounded)

lemma uninitialized_empty_init: "uninitialized_empty init_ledger"
  by (simp add: uninitialized_empty_def init_ledger_def empty_vault_def)

lemma dispatch_uninitialized_empty:
  assumes "dispatch fhe a c s = Inr s'" and "uninitialized_empty s"
  shows "uninitialized_empty s'"
proof (cases c)
  case (CreateVault k p)
  with assms show ?thesis by (auto simp: uninitialized_empty_def dest!: createVault_Inr)
next
  case (RotateVaultKey k p)
  with assms show ?thesis by (auto simp: uninitialized_empty_def dest!: rotateVaultKey_Inr)
next
  case (StoreSecret ct)
  with assms show ?thesis by (auto simp: uninitialized_empty_def dest!: storeSecret_Inr)
qed

lemma transact_uninitialized_empty:
  "uninitialized_empty s \<Longrightarrow> uninitialized_empty (transact fhe s tx)"
  by (cases tx, cases "dispatch fhe (fst tx) (snd tx) s")
     (auto simp: transact_Inl transact_Inr dispatch_uninitialized_empty)

lemma run_uninitialized_empty:
  "uninitialized_empty s \<Longrightarrow> uninitialized_empty (run fhe s txs)"
  by (induction txs arbitrary: s) (simp_all add: transact_uninitialized_empty)

lemma transact_ciphertexts:
  "ciphertexts (vaults (transact fhe s tx) who) =
     ciphertexts (vaults s who) @ submitted fhe s who [tx]"
proof (cases tx)
  case (Pair a c)
  show ?thesis
  proof (cases c)
    case (CreateVault k p)
    then show ?thesis using Pair
      by (cases "createVault fhe a k p s")
         (auto simp: transact_def dest!: createVault_Inr)
  next
    case (RotateVaultKey k p)
    then show ?thesis using Pair
      by (cases "rotateVaultKey fhe a k p s")
         (auto simp: transact_def dest!: rotateVaultKey_Inr)
  next
    case (StoreSecret ct)
    then show ?thesis using Pair
      by (cases "storeSecret a ct s")
         (auto simp: transact_def dest!: storeSecret_Inr)
  qed
qed

lemma submitted_Cons:
  "submitted fhe s who (tx # txs) =
     submitted fhe s who [tx] @ submitted fhe (transact fhe s tx) who txs"
  by (cases tx, cases "snd tx") auto

lemma run_ciphertexts:
  "ciphertexts (vaults (run fhe s txs) who) =
     ciphertexts (vaults s who) @ submitted fhe s who txs"
proof (induction txs arbitrary: s)
  case Nil
  then show ?case by simp
next
  case (Cons tx txs)
  have "ciphertexts (vaults (run fhe s (tx # txs)) who) =
          ciphertexts (vaults (transact fhe s tx) who) @ submitted fhe (transact fhe s tx) who txs"
    using Cons.IH [of "transact fhe s tx"] by simp
  also have "\<dots> = ciphertexts (vaults s who) @ submitted fhe s who (tx # txs)"
    by (simp only: transact_ciphertexts submitted_Cons [of fhe s who tx txs] append_assoc)
  finally show ?case .
qed

lemma transact_hasVault_iff:
  "hasVault (transact fhe s tx) who \<longleftrightarrow> hasVault s who \<or> created fhe s who [tx]"
proof (cases tx)
  case (Pair a c)
  show ?thesis
  proof (cases c)
    case (CreateVault k p)
    then show ?thesis using Pair
      by (cases "createVault fhe a k p s")
         (auto simp: transact_def hasVault_def dest!: createVault_Inr split: if_splits)
  next
    case (RotateVaultKey k p)
    then show ?thesis using Pair
      by (cases "rotateVaultKey fhe a k p s")
         (auto simp: transact_def hasVault_def dest!: rotateVaultKey_Inr split: if_splits)
  next
    case (StoreSecret ct)
    then show ?thesis using Pair
      by (cases "storeSecret a ct s")
         (auto simp: transact_def hasVault_def dest!: storeSecret_Inr split: if_splits)
  qed
qed

lemma created_Cons:
  "created fhe s who (tx # txs) \<longleftrightarrow>
     created fhe s who [tx] \<or> created fhe (transact fhe s tx) who txs"
  by (cases tx, cases "snd tx") auto

lemma run_hasVault_iff:
  "hasVault (run fhe s txs) who \<longleftrightarrow> hasVault s who \<or> created fhe s who txs"
proof (induction txs arbitrary: s)
  case Nil
  then show ?case by simp
next
  case (Cons tx txs)
  have "hasVault (run fhe s (tx # txs)) who \<longleftrightarrow>
          hasVault (transact fhe s tx) who \<or> created fhe (transact fhe s tx) who txs"
    using Cons.IH [of "transact fhe s tx"] by simp
  also have "\<dots> \<longleftrightarrow> hasVault s who \<or> created fhe s who (tx # txs)"
    by (simp only: transact_hasVault_iff created_Cons [of fhe s who tx txs] disj_assoc)
  finally show ?case .
qed

lemma getSecret_in_range:
  assumes "array_bounded s" and "unat i < length (ciphertexts (vaults s who))"
  shows "getSecret s who i = Inr (ciphertexts (vaults s who) ! unat i)"
proof -
  from assms(1) have "length (ciphertexts (vaults s who)) < 2 ^ 256"
    by (simp add: array_bounded_def)
  then have "unat (of_nat (length (ciphertexts (vaults s who))) :: uint256) =
               length (ciphertexts (vaults s who))"
    by (rule unat_of_nat_uint256)
  with assms(2) show ?thesis
    by (simp add: getSecret_def word_le_nat_alt)
qed

lemma getSecret_out_of_range:
  assumes "array_bounded s" and "length (ciphertexts (vaults s who)) \<le> unat i"
  shows "getSecret s who i = Inl SecretIndexOutOfBounds"
proof -
  from assms(1) have "length (ciphertexts (vaults s who)) < 2 ^ 256"
    by (simp add: array_bounded_def)
  then have "unat (of_nat (length (ciphertexts (vaults s who))) :: uint256) =
               length (ciphertexts (vaults s who))"
    by (rule unat_of_nat_uint256)
  with assms(2) show ?thesis
    by (simp add: getSecret_def word_le_nat_alt)
qed

lemma unat_getSecretCount:
  "array_bounded s \<Longrightarrow> unat (getSecretCount s who) = length (ciphertexts (vaults s who))"
  by (simp add: getSecretCount_def array_bounded_def unat_of_nat_uint256)

subsection \<open>The sample ledger\<close>

lemma sample_ledger_eq:
  "sample_ledger =
     \<lparr>vaults = (\<lambda>_. empty_vault)(alice :=
         \<lparr>encryptedKey = 5, initialized = True, ciphertexts = [''dv1:iv1:payload1'']\<rparr>),
      grants = (\<lambda>_. {})(5 := {alice, this demo_layer}),
      events = [VaultCreated alice, SecretStored alice 0]\<rparr>"
  by (simp add: sample_ledger_def sample_txs_def transact_def createVault_def storeSecret_def
        init_ledger_def empty_vault_def demo_layer_def alice_def bob_def
        set_encryptedKey_def set_initialized_def allow_def allowThis_def emit_def
        push_ciphertext_def Let_def)

lemmas sample_defs = transact_def createVault_def rotateVaultKey_def storeSecret_def
  init_ledger_def empty_vault_def demo_layer_def alice_def bob_def Let_def
  hasVault_def getVaultKey_def

lemma sample_submitted:
  "submitted demo_layer init_ledger alice sample_txs2 = [''dv1:iv1:payload1'', ''dv1:iv2:payload2'']"
  by (simp add: sample_txs2_def sample_txs_def transact_def createVault_def storeSecret_def
        init_ledger_def empty_vault_def demo_layer_def alice_def bob_def Let_def)

lemma sample_created:
  "created demo_layer init_ledger alice sample_txs \<and> \<not> created demo_layer init_ledger bob sample_txs"
  by (simp add: sample_txs_def transact_def createVault_def storeSecret_def
        init_ledger_def empty_vault_def demo_layer_def alice_def bob_def Let_def)

subsection \<open>The envelope of the client cipher\<close>

















section \<open>The claims\<close>

text \<open>
  Claim C3: for a caller whose vault is not initialized, \<open>rotateVaultKey\<close> and
  \<open>storeSecret\<close> both revert with \<open>VaultMissing\<close>, and the transaction leaves the
  whole ledger as it was; for a caller whose vault is initialized, neither of them
  reverts with \<open>VaultMissing\<close>.
\<close>

theorem vault_missing_iff_uninitialized:
  "(\<not> hasVault s c \<longrightarrow>
      rotateVaultKey fhe c k p s = Inl VaultMissing \<and>
      storeSecret c ct s = Inl VaultMissing \<and>
      transact fhe s (c, RotateVaultKey k p) = s \<and>
      transact fhe s (c, StoreSecret ct) = s) \<and>
   (hasVault s c \<longrightarrow>
      rotateVaultKey fhe c k p s \<noteq> Inl VaultMissing \<and>
      storeSecret c ct s \<noteq> Inl VaultMissing)"
  by (simp add: hasVault_def rotateVaultKey_def storeSecret_def transact_def Let_def
           split: option.splits)

theorem vault_missing_iff_uninitialized_witness:
  "\<not> hasVault init_ledger 1 \<and>
   rotateVaultKey demo_layer 1 5 [7] init_ledger = Inl VaultMissing \<and>
   storeSecret 1 ''dv1:iv1:payload1'' init_ledger = Inl VaultMissing \<and>
   transact demo_layer init_ledger (1, StoreSecret ''dv1:iv1:payload1'') = init_ledger \<and>
   hasVault (transact demo_layer init_ledger (1, CreateVault 5 [7])) 1 \<and>
   storeSecret 1 ''dv1:iv1:payload1'' (transact demo_layer init_ledger (1, CreateVault 5 [7]))
     \<noteq> Inl VaultMissing"
  using vault_missing_iff_uninitialized [of init_ledger 1 demo_layer 5 "[7]" "''dv1:iv1:payload1''"]
    vault_missing_iff_uninitialized [of "transact demo_layer init_ledger (1, CreateVault 5 [7])" 1
       demo_layer 5 "[7]" "''dv1:iv1:payload1''"]
  by (simp add: hasVault_def init_ledger_def empty_vault_def transact_def createVault_def
        demo_layer_def)

text \<open>
  Claim C1, as amended: \<open>createVault\<close> succeeds exactly when the caller's vault is not
  yet initialized and the access layer accepts the encrypted input with its proof; on
  success the vault holds the validated key handle and is initialized; when the vault
  is already initialized the call reverts with \<open>VaultAlreadyExists\<close>, the transaction
  leaves the whole ledger as it was, and \<open>getVaultKey\<close> still returns the handle stored
  before.
\<close>

theorem createVault_once:
  "(succeeds (createVault fhe c k p s) \<longleftrightarrow>
      \<not> hasVault s c \<and> fromExternal fhe c k p \<noteq> None) \<and>
   (\<forall>s'. createVault fhe c k p s = Inr s' \<longrightarrow>
      fromExternal fhe c k p = Some (getVaultKey s' c) \<and> hasVault s' c) \<and>
   (hasVault s c \<longrightarrow>
      createVault fhe c k p s = Inl VaultAlreadyExists \<and>
      transact fhe s (c, CreateVault k p) = s \<and>
      getVaultKey (transact fhe s (c, CreateVault k p)) c = getVaultKey s c)"
proof (intro conjI allI impI)
  show "succeeds (createVault fhe c k p s) \<longleftrightarrow>
      \<not> hasVault s c \<and> fromExternal fhe c k p \<noteq> None"
    by (auto simp: createVault_def hasVault_def split: option.splits)
next
  fix s' assume ok: "createVault fhe c k p s = Inr s'"
  from createVault_Inr [OF ok]
  show "fromExternal fhe c k p = Some (getVaultKey s' c)" "hasVault s' c"
    by (auto simp: getVaultKey_def hasVault_def)
next
  assume h: "hasVault s c"
  then show e: "createVault fhe c k p s = Inl VaultAlreadyExists"
    by (simp add: createVault_def hasVault_def)
  then show t: "transact fhe s (c, CreateVault k p) = s"
    by (simp add: transact_def)
  then show "getVaultKey (transact fhe s (c, CreateVault k p)) c = getVaultKey s c"
    by simp
qed

theorem createVault_once_witness:
  "\<not> hasVault init_ledger alice \<and>
   succeeds (createVault demo_layer alice 5 [7] init_ledger) \<and>
   createVault demo_layer alice 5 [7] init_ledger
     = Inr (transact demo_layer init_ledger (alice, CreateVault 5 [7])) \<and>
   getVaultKey (transact demo_layer init_ledger (alice, CreateVault 5 [7])) alice = 5 \<and>
   hasVault sample_ledger alice \<and>
   createVault demo_layer alice 9 [7] sample_ledger = Inl VaultAlreadyExists \<and>
   transact demo_layer sample_ledger (alice, CreateVault 9 [7]) = sample_ledger \<and>
   getVaultKey (transact demo_layer sample_ledger (alice, CreateVault 9 [7])) alice = 5"
proof -
  have fresh: "\<not> hasVault init_ledger alice \<and> fromExternal demo_layer alice 5 [7] \<noteq> None"
    by (simp add: hasVault_def init_ledger_def empty_vault_def demo_layer_def)
  have ok: "createVault demo_layer alice 5 [7] init_ledger
              = Inr (transact demo_layer init_ledger (alice, CreateVault 5 [7]))"
    by (simp add: sample_defs)
  have owned: "hasVault sample_ledger alice"
    by (simp add: hasVault_def sample_ledger_eq)
  have key: "getVaultKey sample_ledger alice = 5"
    by (simp add: getVaultKey_def sample_ledger_eq)
  from createVault_once [of demo_layer alice 5 "[7]" init_ledger] fresh ok
  have first: "succeeds (createVault demo_layer alice 5 [7] init_ledger) \<and>
      Some (getVaultKey (transact demo_layer init_ledger (alice, CreateVault 5 [7])) alice)
        = fromExternal demo_layer alice 5 [7]"
    by simp
  from createVault_once [of demo_layer alice 9 "[7]" sample_ledger] owned key
  have second: "createVault demo_layer alice 9 [7] sample_ledger = Inl VaultAlreadyExists \<and>
      transact demo_layer sample_ledger (alice, CreateVault 9 [7]) = sample_ledger \<and>
      getVaultKey (transact demo_layer sample_ledger (alice, CreateVault 9 [7])) alice = 5"
    by simp
  from first have "getVaultKey (transact demo_layer init_ledger (alice, CreateVault 5 [7])) alice = 5"
    by (simp add: demo_layer_def)
  with fresh ok owned key first second show ?thesis by simp
qed

text \<open>
  Claim C1 as stated, without the access layer's acceptance, fails: on the freshly
  deployed ledger the sample layer rejects an input with an empty proof, so
  \<open>createVault\<close> reverts although the caller's vault is not initialized.
\<close>

theorem createVault_counterexample:
  "\<not> (succeeds (createVault demo_layer alice 5 [] init_ledger)
        \<longleftrightarrow> \<not> hasVault init_ledger alice)"
  by (simp add: createVault_def demo_layer_def init_ledger_def empty_vault_def hasVault_def)

text \<open>
  Claim C6: a successful \<open>rotateVaultKey\<close> is a call by an owner with an initialized
  vault; it replaces \<open>encryptedKey\<close> by the newly validated handle and changes no other
  field of the caller's vault: the ciphertexts and the \<open>initialized\<close> flag are as before.
\<close>

theorem rotateVaultKey_frame:
  assumes "rotateVaultKey fhe c k p s = Inr s'"
  shows "hasVault s c \<and>
         fromExternal fhe c k p = Some (getVaultKey s' c) \<and>
         vaults s' c = (vaults s c)\<lparr>encryptedKey := getVaultKey s' c\<rparr> \<and>
         ciphertexts (vaults s' c) = ciphertexts (vaults s c) \<and>
         initialized (vaults s' c) = initialized (vaults s c)"
  using rotateVaultKey_Inr [OF assms] by (auto simp: hasVault_def getVaultKey_def)

theorem rotateVaultKey_frame_witness:
  "rotateVaultKey demo_layer alice 9 [7] sample_ledger
     = Inr (transact demo_layer sample_ledger (alice, RotateVaultKey 9 [7])) \<and>
   getVaultKey (transact demo_layer sample_ledger (alice, RotateVaultKey 9 [7])) alice = 9 \<and>
   ciphertexts (vaults (transact demo_layer sample_ledger (alice, RotateVaultKey 9 [7])) alice)
     = [''dv1:iv1:payload1''] \<and>
   initialized (vaults (transact demo_layer sample_ledger (alice, RotateVaultKey 9 [7])) alice)"
proof -
  have ok: "rotateVaultKey demo_layer alice 9 [7] sample_ledger
              = Inr (transact demo_layer sample_ledger (alice, RotateVaultKey 9 [7]))"
    by (simp add: sample_ledger_eq transact_def rotateVaultKey_def demo_layer_def)
  have before: "ciphertexts (vaults sample_ledger alice) = [''dv1:iv1:payload1''] \<and>
                initialized (vaults sample_ledger alice)"
    by (simp add: sample_ledger_eq)
  from rotateVaultKey_frame [OF ok] before
  have "Some (getVaultKey (transact demo_layer sample_ledger (alice, RotateVaultKey 9 [7])) alice)
          = fromExternal demo_layer alice 9 [7] \<and>
        ciphertexts (vaults (transact demo_layer sample_ledger (alice, RotateVaultKey 9 [7])) alice)
          = [''dv1:iv1:payload1''] \<and>
        initialized (vaults (transact demo_layer sample_ledger (alice, RotateVaultKey 9 [7])) alice)"
    by simp
  with ok show ?thesis by (simp add: demo_layer_def)
qed

text \<open>
  Claim C7: a mutating call by caller \<open>c\<close> leaves the vault record of every other
  identity \<open>d\<close> as it was, both in the ledger the call returns when it succeeds and in
  the ledger after the transaction, whether it succeeded or reverted.
\<close>

theorem other_vaults_untouched:
  assumes "d \<noteq> c"
  shows "vaults (transact fhe s (c, call)) d = vaults s d \<and>
         (\<forall>s'. dispatch fhe c call s = Inr s' \<longrightarrow> vaults s' d = vaults s d)"
  using assms by (simp add: transact_vaults_other dispatch_vaults_other)

theorem other_vaults_untouched_witness:
  "alice \<noteq> bob \<and>
   dispatch demo_layer bob (CreateVault 6 [7]) sample_ledger
     = Inr (transact demo_layer sample_ledger (bob, CreateVault 6 [7])) \<and>
   vaults (transact demo_layer sample_ledger (bob, CreateVault 6 [7])) alice
     = vaults sample_ledger alice \<and>
   vaults (transact demo_layer sample_ledger (bob, StoreSecret ''x'')) alice
     = vaults sample_ledger alice"
proof -
  have ne: "alice \<noteq> bob"
    by (simp add: alice_def bob_def)
  have ok: "dispatch demo_layer bob (CreateVault 6 [7]) sample_ledger
              = Inr (transact demo_layer sample_ledger (bob, CreateVault 6 [7]))"
    using ne by (simp add: sample_ledger_eq transact_def createVault_def demo_layer_def empty_vault_def)
  from other_vaults_untouched [OF ne, of demo_layer sample_ledger "CreateVault 6 [7]"]
    other_vaults_untouched [OF ne, of demo_layer sample_ledger "StoreSecret ''x''"] ne ok
  show ?thesis by simp
qed

text \<open>
  Claim C8: after a successful \<open>createVault\<close> or \<open>rotateVaultKey\<close>, the grants of the key
  handle now stored in the caller's vault include the contract itself and the caller;
  and no transaction extends the grants of any handle by an identity other than the
  contract and its caller.
\<close>

theorem key_grants:
  "(\<forall>s'. createVault fhe c k p s = Inr s' \<longrightarrow>
       this fhe \<in> grants s' (getVaultKey s' c) \<and> c \<in> grants s' (getVaultKey s' c)) \<and>
   (\<forall>s'. rotateVaultKey fhe c k p s = Inr s' \<longrightarrow>
       this fhe \<in> grants s' (getVaultKey s' c) \<and> c \<in> grants s' (getVaultKey s' c)) \<and>
   (\<forall>h. grants (transact fhe s (c, call)) h \<subseteq> grants s h \<union> {this fhe, c})"
proof (intro conjI allI impI)
  fix s' assume ok: "createVault fhe c k p s = Inr s'"
  from createVault_Inr [OF ok]
  show "this fhe \<in> grants s' (getVaultKey s' c)" "c \<in> grants s' (getVaultKey s' c)"
    by (auto simp: getVaultKey_def)
next
  fix s' assume ok: "rotateVaultKey fhe c k p s = Inr s'"
  from rotateVaultKey_Inr [OF ok]
  show "this fhe \<in> grants s' (getVaultKey s' c)" "c \<in> grants s' (getVaultKey s' c)"
    by (auto simp: getVaultKey_def)
next
  fix h show "grants (transact fhe s (c, call)) h \<subseteq> grants s h \<union> {this fhe, c}"
    by (rule transact_grants)
qed

theorem key_grants_witness:
  "createVault demo_layer alice 5 [7] init_ledger
     = Inr (transact demo_layer init_ledger (alice, CreateVault 5 [7])) \<and>
   {this demo_layer, alice}
     \<subseteq> grants (transact demo_layer init_ledger (alice, CreateVault 5 [7]))
         (getVaultKey (transact demo_layer init_ledger (alice, CreateVault 5 [7])) alice) \<and>
   rotateVaultKey demo_layer alice 9 [7] sample_ledger
     = Inr (transact demo_layer sample_ledger (alice, RotateVaultKey 9 [7])) \<and>
   {this demo_layer, alice}
     \<subseteq> grants (transact demo_layer sample_ledger (alice, RotateVaultKey 9 [7]))
         (getVaultKey (transact demo_layer sample_ledger (alice, RotateVaultKey 9 [7])) alice) \<and>
   grants (transact demo_layer sample_ledger (alice, RotateVaultKey 9 [7])) 9
     \<subseteq> grants sample_ledger 9 \<union> {this demo_layer, alice}"
proof -
  have ok1: "createVault demo_layer alice 5 [7] init_ledger
               = Inr (transact demo_layer init_ledger (alice, CreateVault 5 [7]))"
    by (simp add: sample_defs)
  have ok2: "rotateVaultKey demo_layer alice 9 [7] sample_ledger
               = Inr (transact demo_layer sample_ledger (alice, RotateVaultKey 9 [7]))"
    by (simp add: sample_ledger_eq transact_def rotateVaultKey_def demo_layer_def)
  from key_grants [of demo_layer alice 5 "[7]" init_ledger "RotateVaultKey 9 [7]"] ok1
  have g1: "{this demo_layer, alice}
     \<subseteq> grants (transact demo_layer init_ledger (alice, CreateVault 5 [7]))
         (getVaultKey (transact demo_layer init_ledger (alice, CreateVault 5 [7])) alice)"
    by simp
  from key_grants [of demo_layer alice 9 "[7]" sample_ledger "RotateVaultKey 9 [7]"] ok2
  have g2: "{this demo_layer, alice}
     \<subseteq> grants (transact demo_layer sample_ledger (alice, RotateVaultKey 9 [7]))
         (getVaultKey (transact demo_layer sample_ledger (alice, RotateVaultKey 9 [7])) alice) \<and>
    grants (transact demo_layer sample_ledger (alice, RotateVaultKey 9 [7])) 9
     \<subseteq> grants sample_ledger 9 \<union> {this demo_layer, alice}"
    by simp
  from ok1 ok2 g1 g2 show ?thesis by simp
qed

text \<open>
  Claim C2: in the ledger reached from deployment by any sequence of transactions, the
  count of owner \<open>who\<close> is the number of that owner's successful \<open>storeSecret\<close> calls,
  and \<open>getSecret\<close> at each index below it returns the ciphertext submitted at that
  position, in submission order, now and after any later transactions.  Each
  successful call appends at the index equal to the previous length, which fits a
  \<open>uint256\<close>, increases the count by one, and emits \<open>SecretStored\<close> with that index.
\<close>

theorem stored_secrets_in_order:
  "unat (getSecretCount (run fhe init_ledger txs) who)
     = length (submitted fhe init_ledger who txs) \<and>
   (\<forall>i. unat i < length (submitted fhe init_ledger who txs) \<longrightarrow>
      getSecret (run fhe init_ledger txs) who i
        = Inr (submitted fhe init_ledger who txs ! unat i) \<and>
      (\<forall>later. getSecret (run fhe (run fhe init_ledger txs) later) who i
        = Inr (submitted fhe init_ledger who txs ! unat i))) \<and>
   (\<forall>s1. storeSecret who ct s = Inr s1 \<longrightarrow>
      ciphertexts (vaults s1 who) = ciphertexts (vaults s who) @ [ct] \<and>
      unat (getSecretCount s who) = length (ciphertexts (vaults s who)) \<and>
      getSecretCount s1 who = getSecretCount s who + 1 \<and>
      events s1 = events s @ [SecretStored who (getSecretCount s who)])"
proof (intro conjI allI impI)
  let ?s = "run fhe init_ledger txs"
  let ?subs = "submitted fhe init_ledger who txs"
  have b: "array_bounded ?s"
    by (rule run_array_bounded [OF array_bounded_init])
  have c: "ciphertexts (vaults ?s who) = ?subs"
    using run_ciphertexts [of fhe init_ledger txs who]
    by (simp add: init_ledger_def empty_vault_def)
  show "unat (getSecretCount ?s who) = length ?subs"
    using unat_getSecretCount [OF b, of who] c by simp
  fix i :: uint256
  assume i: "unat i < length ?subs"
  show "getSecret ?s who i = Inr (?subs ! unat i)"
    using getSecret_in_range [OF b, of i who] i c by simp
  fix later
  have b': "array_bounded (run fhe ?s later)"
    by (rule run_array_bounded [OF b])
  have c': "ciphertexts (vaults (run fhe ?s later) who) = ?subs @ submitted fhe ?s who later"
    using run_ciphertexts [of fhe ?s later who] c by simp
  from i have "unat i < length (ciphertexts (vaults (run fhe ?s later) who))"
    by (simp add: c')
  from getSecret_in_range [OF b' this] i
  show "getSecret (run fhe ?s later) who i = Inr (?subs ! unat i)"
    by (simp add: c' nth_append)
next
  fix s1 assume ok: "storeSecret who ct s = Inr s1"
  from storeSecret_Inr [OF ok]
  have len: "length (ciphertexts (vaults s who)) < 2 ^ 256 - 1"
    and v: "vaults s1 = (vaults s)(who := (vaults s who)
              \<lparr>ciphertexts := ciphertexts (vaults s who) @ [ct]\<rparr>)"
    and e: "events s1 = events s @ [SecretStored who (of_nat (length (ciphertexts (vaults s who))))]"
    by simp_all
  from v show "ciphertexts (vaults s1 who) = ciphertexts (vaults s who) @ [ct]"
    by simp
  from len have "length (ciphertexts (vaults s who)) < 2 ^ 256" by linarith
  then show "unat (getSecretCount s who) = length (ciphertexts (vaults s who))"
    by (simp add: getSecretCount_def unat_of_nat_uint256)
  from v show "getSecretCount s1 who = getSecretCount s who + 1"
    by (simp add: getSecretCount_def)
  from e show "events s1 = events s @ [SecretStored who (getSecretCount s who)]"
    by (simp add: getSecretCount_def)
qed

theorem stored_secrets_in_order_witness:
  "submitted demo_layer init_ledger alice sample_txs2
     = [''dv1:iv1:payload1'', ''dv1:iv2:payload2''] \<and>
   unat (getSecretCount (run demo_layer init_ledger sample_txs2) alice) = 2 \<and>
   getSecret (run demo_layer init_ledger sample_txs2) alice 0 = Inr ''dv1:iv1:payload1'' \<and>
   getSecret (run demo_layer init_ledger sample_txs2) alice 1 = Inr ''dv1:iv2:payload2'' \<and>
   storeSecret alice ''dv1:iv2:payload2'' sample_ledger
     = Inr (transact demo_layer sample_ledger (alice, StoreSecret ''dv1:iv2:payload2'')) \<and>
   events (transact demo_layer sample_ledger (alice, StoreSecret ''dv1:iv2:payload2''))
     = events sample_ledger @ [SecretStored alice 1]"
proof -
  have ok: "storeSecret alice ''dv1:iv2:payload2'' sample_ledger
     = Inr (transact demo_layer sample_ledger (alice, StoreSecret ''dv1:iv2:payload2''))"
    by (simp add: sample_ledger_eq transact_def storeSecret_def Let_def)
  have cnt: "getSecretCount sample_ledger alice = 1"
    by (simp add: sample_ledger_eq getSecretCount_def)
  have i0: "unat (0 :: uint256) < length [''dv1:iv1:payload1'', ''dv1:iv2:payload2'']"
    and i1: "unat (1 :: uint256) < length [''dv1:iv1:payload1'', ''dv1:iv2:payload2'']"
    by simp_all
  from stored_secrets_in_order
         [of demo_layer sample_txs2 alice "''dv1:iv2:payload2''" sample_ledger]
    sample_submitted ok cnt i0 i1
  show ?thesis by simp
qed

text \<open>
  Claim C4: in every reachable ledger, \<open>getSecret\<close> reverts with
  \<open>SecretIndexOutOfBounds\<close> exactly when the index is at least \<open>getSecretCount\<close>, which
  includes index \<open>0\<close> of an uninitialized vault, and otherwise returns the ciphertext
  stored at that index.  \<open>getSecret\<close> is a \<open>view\<close> function: a function of the ledger
  that returns no new ledger.
\<close>

theorem getSecret_bounds:
  assumes "s = run fhe init_ledger txs"
  shows "(getSecret s who i = Inl SecretIndexOutOfBounds \<longleftrightarrow> getSecretCount s who \<le> i) \<and>
         (i < getSecretCount s who \<longrightarrow>
            unat i < length (ciphertexts (vaults s who)) \<and>
            getSecret s who i = Inr (ciphertexts (vaults s who) ! unat i)) \<and>
         (\<not> hasVault s who \<longrightarrow> getSecret s who 0 = Inl SecretIndexOutOfBounds)"
proof -
  have b: "array_bounded s"
    unfolding assms by (rule run_array_bounded [OF array_bounded_init])
  have u: "uninitialized_empty s"
    unfolding assms by (rule run_uninitialized_empty [OF uninitialized_empty_init])
  have fails: "getSecret s who i = Inl SecretIndexOutOfBounds \<longleftrightarrow> getSecretCount s who \<le> i"
    by (simp add: getSecret_def getSecretCount_def)
  have reads: "unat i < length (ciphertexts (vaults s who)) \<and>
      getSecret s who i = Inr (ciphertexts (vaults s who) ! unat i)"
    if "i < getSecretCount s who"
  proof -
    from that have "unat i < unat (getSecretCount s who)"
      by (simp add: word_less_nat_alt)
    then have lt: "unat i < length (ciphertexts (vaults s who))"
      by (simp add: unat_getSecretCount [OF b])
    with getSecret_in_range [OF b lt] show ?thesis by simp
  qed
  have none: "getSecret s who 0 = Inl SecretIndexOutOfBounds" if "\<not> hasVault s who"
  proof -
    from that u have "ciphertexts (vaults s who) = []"
      by (simp add: uninitialized_empty_def hasVault_def)
    then show ?thesis by (simp add: getSecret_def)
  qed
  from fails reads none show ?thesis by blast
qed

theorem getSecret_bounds_witness:
  "sample_ledger = run demo_layer init_ledger sample_txs \<and>
   getSecretCount sample_ledger alice = 1 \<and>
   getSecret sample_ledger alice 0 = Inr ''dv1:iv1:payload1'' \<and>
   getSecret sample_ledger alice 1 = Inl SecretIndexOutOfBounds \<and>
   \<not> hasVault sample_ledger bob \<and>
   getSecret sample_ledger bob 0 = Inl SecretIndexOutOfBounds"
proof -
  have r: "sample_ledger = run demo_layer init_ledger sample_txs"
    by (simp add: sample_ledger_def)
  have cnt: "getSecretCount sample_ledger alice = 1"
    by (simp add: sample_ledger_eq getSecretCount_def)
  have nb: "\<not> hasVault sample_ledger bob"
    by (simp add: sample_ledger_eq hasVault_def alice_def bob_def empty_vault_def)
  have c: "ciphertexts (vaults sample_ledger alice) = [''dv1:iv1:payload1'']"
    by (simp add: sample_ledger_eq)
  from getSecret_bounds [OF r, of alice 0] getSecret_bounds [OF r, of alice 1]
    getSecret_bounds [OF r, of bob 0] r cnt nb c
  show ?thesis by simp
qed

text \<open>
  Claim C5: in the ledger reached from deployment by a sequence of transactions,
  \<open>hasVault\<close> of an owner is true exactly when the sequence holds a successful
  \<open>createVault\<close> by that owner; and once true it stays true after any transaction and
  any sequence of transactions, by any caller.
\<close>

theorem hasVault_monotone:
  "(hasVault (run fhe init_ledger txs) who \<longleftrightarrow> created fhe init_ledger who txs) \<and>
   (hasVault s who \<longrightarrow> hasVault (transact fhe s tx) who) \<and>
   (hasVault s who \<longrightarrow> hasVault (run fhe s later) who)"
proof (intro conjI impI)
  show "hasVault (run fhe init_ledger txs) who \<longleftrightarrow> created fhe init_ledger who txs"
    using run_hasVault_iff [of fhe init_ledger txs who]
    by (simp add: hasVault_def init_ledger_def empty_vault_def)
next
  assume "hasVault s who"
  then show "hasVault (transact fhe s tx) who"
    by (rule transact_hasVault)
next
  assume "hasVault s who"
  then show "hasVault (run fhe s later) who"
    by (rule run_hasVault)
qed

theorem hasVault_monotone_witness:
  "\<not> hasVault (run demo_layer init_ledger []) alice \<and>
   created demo_layer init_ledger alice sample_txs \<and>
   hasVault sample_ledger alice \<and>
   hasVault (transact demo_layer sample_ledger (alice, RotateVaultKey 9 [7])) alice \<and>
   hasVault (run demo_layer sample_ledger
     [(alice, StoreSecret ''dv1:iv2:payload2''), (bob, CreateVault 6 [7])]) alice \<and>
   \<not> created demo_layer init_ledger bob sample_txs \<and>
   \<not> hasVault sample_ledger bob"
proof -
  have a: "hasVault sample_ledger alice"
    by (simp add: sample_ledger_eq hasVault_def)
  from hasVault_monotone [of demo_layer "[]" alice sample_ledger "(alice, RotateVaultKey 9 [7])"
         "[(alice, StoreSecret ''dv1:iv2:payload2''), (bob, CreateVault 6 [7])]"]
    hasVault_monotone [of demo_layer sample_txs bob]
    a sample_created
  show ?thesis by (simp add: sample_ledger_def)
qed

text \<open>
  Claim C10: in every reachable ledger, an owner whose vault is not initialized has an
  empty ciphertext sequence: the count is \<open>0\<close> and \<open>getSecret\<close> reverts at every index.
\<close>

theorem uninitialized_vault_has_no_secrets:
  assumes "\<not> hasVault (run fhe init_ledger txs) who"
  shows "ciphertexts (vaults (run fhe init_ledger txs) who) = [] \<and>
         getSecretCount (run fhe init_ledger txs) who = 0 \<and>
         (\<forall>i. getSecret (run fhe init_ledger txs) who i = Inl SecretIndexOutOfBounds)"
proof -
  have "uninitialized_empty (run fhe init_ledger txs)"
    by (rule run_uninitialized_empty [OF uninitialized_empty_init])
  with assms have "ciphertexts (vaults (run fhe init_ledger txs) who) = []"
    by (simp add: uninitialized_empty_def hasVault_def)
  then show ?thesis
    by (simp add: getSecretCount_def getSecret_def)
qed

theorem uninitialized_vault_has_no_secrets_witness:
  "\<not> hasVault (run demo_layer init_ledger sample_txs) bob \<and>
   getSecretCount (run demo_layer init_ledger sample_txs) bob = 0 \<and>
   getSecret (run demo_layer init_ledger sample_txs) bob 0 = Inl SecretIndexOutOfBounds \<and>
   getSecret (run demo_layer init_ledger sample_txs) bob 7 = Inl SecretIndexOutOfBounds"
proof -
  have nb: "\<not> hasVault (run demo_layer init_ledger sample_txs) bob"
    using sample_ledger_eq
    by (simp add: sample_ledger_def hasVault_def alice_def bob_def empty_vault_def)
  from uninitialized_vault_has_no_secrets [OF nb] nb
  show ?thesis by simp
qed




end
